theory Spec2Isabelle
  imports Complex_Main "HOL-Library.Sublist" "HOL-Library.AList"
begin

section \<open>Exceptions and results\<close>

text \<open>
  A call of a provider method either returns a value or raises. The orchestrator's
  handlers are all \<^verbatim>\<open>except Exception\<close>, so what matters about a raised object is
  whether it is an instance of \<^verbatim>\<open>Exception\<close> (\<open>Exc\<close>, with its message) or one of the
  other \<^verbatim>\<open>BaseException\<close> classes, \<^verbatim>\<open>KeyboardInterrupt\<close>, \<^verbatim>\<open>SystemExit\<close> and
  \<^verbatim>\<open>GeneratorExit\<close> (\<open>BaseExc\<close>), which such a handler lets pass.
\<close>

datatype raised = Exc string | BaseExc string

type_synonym 'a result = "raised + 'a"

section \<open>The cleaner interface (core/cleaner.py)\<close>

text \<open>
  The abstract class \<^verbatim>\<open>Cleaner\<close>: a provider is its three abstract methods over a state
  \<open>'s\<close> (the provider object together with the external world it reads and deletes from),
  and the formatter that \<^verbatim>\<open>_log_item\<close> uses: the provider's \<^verbatim>\<open>item_to_str\<close> when it has
  one, \<^verbatim>\<open>str\<close> otherwise. Items are of any type \<open>'i\<close>.
\<close>

record ('i, 's) cleaner =
  check_prerequisites :: "'s \<Rightarrow> bool result \<times> 's"
  find_cleanable_items :: "int \<Rightarrow> 's \<Rightarrow> 'i list result \<times> 's"
  clean_item :: "'i \<Rightarrow> bool \<Rightarrow> 's \<Rightarrow> bool result \<times> 's"
  item_to_str :: "'i \<Rightarrow> string result"

text \<open>
  What a run does that a test double can observe: the calls of the provider's methods,
  in order (a \<open>CleanItem\<close> call with its \<^verbatim>\<open>dry_run\<close> argument and its outcome), and the
  lines written by \<^verbatim>\<open>_log_item\<close> (prefix and item string). The other log lines are
  not modelled.
\<close>

datatype 'i event =
    CheckPrerequisites
  | FindCleanableItems int
  | CleanItem 'i bool "bool result"
  | LogItem string string

text \<open>
  The dry-run loop, lines 130-131: \<^verbatim>\<open>for item in cleanable_items: self._log_item(item,
  "Would clean")\<close>. It is outside every \<^verbatim>\<open>try\<close>, so a formatter that raises ends the
  run with that exception.
\<close>

fun dry_run_loop :: "('i, 's) cleaner \<Rightarrow> 'i list \<Rightarrow> unit result \<times> 'i event list" where
  "dry_run_loop c [] = (Inr (), [])"
| "dry_run_loop c (item # rest) =
     (case item_to_str c item of
        Inl e \<Rightarrow> (Inl e, [])
      | Inr item_str \<Rightarrow>
          (case dry_run_loop c rest of
             (r, evs) \<Rightarrow> (r, LogItem ''Would clean'' item_str # evs)))"

text \<open>
  The body of the \<^verbatim>\<open>try\<close> of the real loop, lines 138-142, for one item, with the
  running \<^verbatim>\<open>success_count\<close>. The count is incremented before \<^verbatim>\<open>_log_item\<close> runs, so
  it keeps the increment when the formatter raises.
\<close>

definition clean_body ::
  "('i, 's) cleaner \<Rightarrow> 'i \<Rightarrow> nat \<Rightarrow> 's \<Rightarrow> unit result \<times> nat \<times> 's \<times> 'i event list" where
  "clean_body c item success_count s =
     (case clean_item c item False s of
        (Inl e, s') \<Rightarrow> (Inl e, success_count, s', [CleanItem item False (Inl e)])
      | (Inr ok, s') \<Rightarrow>
          (let success_count' = (if ok then success_count + 1 else success_count);
               pfx = (if ok then ''Cleaned'' else ''Failed to clean'')
           in case item_to_str c item of
                Inl e \<Rightarrow> (Inl e, success_count', s', [CleanItem item False (Inr ok)])
              | Inr item_str \<Rightarrow>
                  (Inr (), success_count', s',
                   [CleanItem item False (Inr ok), LogItem pfx item_str])))"

text \<open>
  The real loop, lines 136-145: \<^verbatim>\<open>except Exception\<close> swallows an \<open>Exc\<close> and goes on
  with the next item; anything else leaves the loop.
\<close>

fun clean_loop ::
  "('i, 's) cleaner \<Rightarrow> 'i list \<Rightarrow> nat \<Rightarrow> 's \<Rightarrow> nat result \<times> 's \<times> 'i event list" where
  "clean_loop c [] success_count s = (Inr success_count, s, [])"
| "clean_loop c (item # rest) success_count s =
     (case clean_body c item success_count s of
        (Inl (BaseExc m), success_count', s', evs) \<Rightarrow> (Inl (BaseExc m), s', evs)
      | (_, success_count', s', evs) \<Rightarrow>
          (case clean_loop c rest success_count' s' of
             (r, s'', evs') \<Rightarrow> (r, s'', evs @ evs')))"

text \<open>
  \<^verbatim>\<open>Cleaner.clean(days_threshold, dry_run)\<close>, lines 87-149: the value returned or the
  exception that leaves the method, the state afterwards, and the events of the run.
\<close>

definition clean ::
  "('i, 's) cleaner \<Rightarrow> int \<Rightarrow> bool \<Rightarrow> 's \<Rightarrow> bool result \<times> 's \<times> 'i event list" where
  "clean c days_threshold dry_run s =
     (case check_prerequisites c s of
        (Inl (BaseExc m), s1) \<Rightarrow> (Inl (BaseExc m), s1, [CheckPrerequisites])
      | (Inl (Exc m), s1) \<Rightarrow> (Inr False, s1, [CheckPrerequisites])
      | (Inr False, s1) \<Rightarrow> (Inr False, s1, [CheckPrerequisites])
      | (Inr True, s1) \<Rightarrow>
          (case find_cleanable_items c days_threshold s1 of
             (Inl (BaseExc m), s2) \<Rightarrow>
               (Inl (BaseExc m), s2, [CheckPrerequisites, FindCleanableItems days_threshold])
           | (Inl (Exc m), s2) \<Rightarrow>
               (Inr False, s2, [CheckPrerequisites, FindCleanableItems days_threshold])
           | (Inr cleanable_items, s2) \<Rightarrow>
               (if cleanable_items = [] then
                  (Inr True, s2, [CheckPrerequisites, FindCleanableItems days_threshold])
                else if dry_run then
                  (case dry_run_loop c cleanable_items of
                     (Inl e, evs) \<Rightarrow>
                       (Inl e, s2,
                        [CheckPrerequisites, FindCleanableItems days_threshold] @ evs)
                   | (Inr u, evs) \<Rightarrow>
                       (Inr True, s2,
                        [CheckPrerequisites, FindCleanableItems days_threshold] @ evs))
                else
                  (case clean_loop c cleanable_items 0 s2 of
                     (Inl e, s3, evs) \<Rightarrow>
                       (Inl e, s3,
                        [CheckPrerequisites, FindCleanableItems days_threshold] @ evs)
                   | (Inr success_count, s3, evs) \<Rightarrow>
                       (Inr (success_count > 0 \<or> length cleanable_items = 0), s3,
                        [CheckPrerequisites, FindCleanableItems days_threshold] @ evs)))))"

text \<open>
  The number of \<^verbatim>\<open>clean_item\<close> calls of a run that returned \<^verbatim>\<open>True\<close>, read off the
  events.
\<close>

fun cleaned_ok :: "'i event \<Rightarrow> bool" where
  "cleaned_ok (CleanItem item dry (Inr ok)) = ok"
| "cleaned_ok e = False"

definition successCount :: "'i event list \<Rightarrow> nat" where
  "successCount evs = length (filter cleaned_ok evs)"

text \<open>
  What step 5 of the specification says a real run does with the discovered items:
  \<^verbatim>\<open>clean_item(item, dry_run=False)\<close> on each of them, in the order discovery returned
  them, each call on the state the call before left, whatever the outcome of that call
  was. The result is the outcomes of the calls, in order, and the state after the last.
\<close>

fun item_outcomes :: "('i, 's) cleaner \<Rightarrow> 'i list \<Rightarrow> 's \<Rightarrow> bool result list \<times> 's" where
  "item_outcomes c [] s = ([], s)"
| "item_outcomes c (item # rest) s =
     (case clean_item c item False s of
        (r, s') \<Rightarrow> (case item_outcomes c rest s' of (rs, s'') \<Rightarrow> (r # rs, s'')))"

text \<open>The provider calls among the events of a run that are \<^verbatim>\<open>clean_item\<close> calls.\<close>

fun is_clean_call :: "'i event \<Rightarrow> bool" where
  "is_clean_call (CleanItem item dry r) = True"
| "is_clean_call e = False"

text \<open>
  A test double in the manner of \<^verbatim>\<open>MockCleaner\<close> of tests/test_core.py: the outcome of
  the prerequisite check, of discovery and of \<^verbatim>\<open>clean_item\<close> on each item are given;
  the state is the list \<^verbatim>\<open>cleaned_items\<close>, to which a real \<^verbatim>\<open>clean_item\<close> that
  succeeds appends its item. Items are strings and print as themselves.
\<close>

definition StubCleaner ::
  "bool result \<Rightarrow> string list result \<Rightarrow> (string \<Rightarrow> bool result)
     \<Rightarrow> (string, string list) cleaner" where
  "StubCleaner prereq found outcome =
     \<lparr>check_prerequisites = (\<lambda>s. (prereq, s)),
      find_cleanable_items = (\<lambda>days s. (found, s)),
      clean_item = (\<lambda>item dry s.
         (outcome item, if \<not> dry \<and> outcome item = Inr True then s @ [item] else s)),
      item_to_str = (\<lambda>item. Inr item)\<rparr>"

section \<open>The Kubernetes provider (cleaners/k8s.py)\<close>

text \<open>
  An item is the dict that \<^verbatim>\<open>find_cleanable_items\<close> builds; \<^verbatim>\<open>clean_item\<close> reads its
  keys \<^verbatim>\<open>"type"\<close>, \<^verbatim>\<open>"namespace"\<close> and \<^verbatim>\<open>"name"\<close>, which discovery always sets.
\<close>

record k8s_item =
  item_type :: string
  namespace :: string
  name :: string

text \<open>The two sets of \<^verbatim>\<open>__init__\<close>, lines 29-37.\<close>

definition protected_namespaces :: "string set" where
  "protected_namespaces =
     {''kube-system'', ''kube-public'', ''kube-node-lease'',
      ''cert-manager'', ''istio-system'', ''monitoring'',
      ''ingress-nginx'', ''default''}"

definition protected_prefixes :: "string set" where
  "protected_prefixes =
     {''kube-'', ''calico-'', ''istio-'', ''cert-manager-'',
      ''prometheus-'', ''grafana-'', ''default-token-''}"

text \<open>
  The \<^verbatim>\<open>if\<close>/\<^verbatim>\<open>elif\<close> chain of lines 227-241 that builds the command; \<open>None\<close> is its
  \<^verbatim>\<open>else\<close> branch, "Unknown Kubernetes resource type".
\<close>

definition delete_command :: "k8s_item \<Rightarrow> string option" where
  "delete_command item =
     (if item_type item = ''pod'' then
        Some (''kubectl delete pod '' @ name item @ '' -n '' @ namespace item
              @ '' --grace-period=30'')
      else if item_type item = ''replicaset'' then
        Some (''kubectl delete rs '' @ name item @ '' -n '' @ namespace item
              @ '' --grace-period=30'')
      else if item_type item = ''configmap'' then
        Some (''kubectl delete configmap '' @ name item @ '' -n '' @ namespace item)
      else if item_type item = ''secret'' then
        Some (''kubectl delete secret '' @ name item @ '' -n '' @ namespace item)
      else None)"

text \<open>
  \<^verbatim>\<open>KubernetesCleaner.clean_item\<close>, lines 196-249. The cluster is a state \<open>'w\<close> behind
  \<^verbatim>\<open>_run_kubectl\<close>, which takes the command and its timeout and answers with the output
  or \<^verbatim>\<open>None\<close>. The result is the value returned, the cluster afterwards and the
  commands this call issued.
\<close>

definition k8s_clean_item ::
  "(string \<Rightarrow> nat \<Rightarrow> 'w \<Rightarrow> string option \<times> 'w) \<Rightarrow> k8s_item \<Rightarrow> bool \<Rightarrow> 'w
     \<Rightarrow> bool \<times> 'w \<times> string list" where
  "k8s_clean_item run_kubectl item dry_run w =
     (if namespace item \<in> protected_namespaces then (False, w, [])
      else if \<exists>p \<in> protected_prefixes. prefix p (name item) then (False, w, [])
      else if dry_run then (True, w, [])
      else
        (case delete_command item of
           None \<Rightarrow> (False, w, [])
         | Some cmd \<Rightarrow>
             (case run_kubectl cmd 45 w of
                (None, w') \<Rightarrow> (False, w', [cmd])
              | (Some out, w') \<Rightarrow> (True, w', [cmd]))))"

text \<open>
  The provider as a \<open>cleaner\<close>: its state is the cluster and the commands issued so far.
  The prerequisite check, discovery and \<^verbatim>\<open>item_to_str\<close> are parameters; only
  \<^verbatim>\<open>clean_item\<close> is the code above.
\<close>

definition KubernetesCleaner ::
  "('w \<Rightarrow> bool result \<times> 'w) \<Rightarrow> (int \<Rightarrow> 'w \<Rightarrow> k8s_item list result \<times> 'w)
     \<Rightarrow> (k8s_item \<Rightarrow> string result) \<Rightarrow> (string \<Rightarrow> nat \<Rightarrow> 'w \<Rightarrow> string option \<times> 'w)
     \<Rightarrow> (k8s_item, 'w \<times> string list) cleaner" where
  "KubernetesCleaner prereq discover fmt run_kubectl =
     \<lparr>check_prerequisites = (\<lambda>(w, issued). case prereq w of (r, w') \<Rightarrow> (r, (w', issued))),
      find_cleanable_items =
        (\<lambda>days (w, issued). case discover days w of (r, w') \<Rightarrow> (r, (w', issued))),
      clean_item = (\<lambda>item dry_run (w, issued).
         case k8s_clean_item run_kubectl item dry_run w of
           (ok, w', cmds) \<Rightarrow> (Inr ok, (w', issued @ cmds))),
      item_to_str = fmt\<rparr>"

text \<open>A cluster that accepts every command and keeps the list of those it ran.\<close>

definition kubectl_ok :: "string \<Rightarrow> nat \<Rightarrow> string list \<Rightarrow> string option \<times> string list" where
  "kubectl_ok cmd timeout w = (Some ''deleted'', w @ [cmd])"

section \<open>The file system seen by the size scanners\<close>

text \<open>
  The three \<^verbatim>\<open>OSError\<close> classes the handlers of the source tell apart; \<open>OSError\<close> is
  any other subclass.
\<close>

datatype oserror = FileNotFoundError | PermissionError | OSError

text \<open>
  What a path resolves to during one scan.
  \<^item> \<open>File st\<close> is an entry that is not a directory: a regular file or a link to one.
    \<open>st k\<close> is what the \<open>k\<close>-th \<^verbatim>\<open>os.stat\<close> of the entry gives, counted from 0: its
    \<^verbatim>\<open>st_size\<close>, or the error raised. A file that nobody touches answers the same at
    every call; a file that is removed during the scan answers with a size first and
    with an error later; a path that does not exist and a broken link always answer with
    an error.
  \<^item> \<open>Dir es\<close> is a directory with its entries.
  \<^item> \<open>Unlistable\<close> is a directory that \<^verbatim>\<open>os.scandir\<close> cannot list.
  Links to directories are left out of the model.
\<close>

datatype fsnode =
    File "nat \<Rightarrow> oserror + nat"
  | Dir "fsnode list"
  | Unlistable

text \<open>
  \<^verbatim>\<open>os.path.exists\<close>, \<^verbatim>\<open>os.path.isfile\<close> and \<^verbatim>\<open>os.path.getsize\<close>, each one
  \<^verbatim>\<open>os.stat\<close>, here the \<open>k\<close>-th of the entry. The first two turn an error into
  \<^verbatim>\<open>False\<close>; the third lets it out. The scanners ask for the size of entries that are
  not directories only; the size of a directory's own inode is not modelled.
\<close>

fun path_exists :: "fsnode \<Rightarrow> nat \<Rightarrow> bool" where
  "path_exists (File st) k = (case st k of Inl e \<Rightarrow> False | Inr n \<Rightarrow> True)"
| "path_exists (Dir es) k = True"
| "path_exists Unlistable k = True"

fun path_isfile :: "fsnode \<Rightarrow> nat \<Rightarrow> bool" where
  "path_isfile (File st) k = (case st k of Inl e \<Rightarrow> False | Inr n \<Rightarrow> True)"
| "path_isfile (Dir es) k = False"
| "path_isfile Unlistable k = False"

fun getsize :: "fsnode \<Rightarrow> nat \<Rightarrow> oserror + nat" where
  "getsize (File st) k = st k"
| "getsize (Dir es) k = Inr 0"
| "getsize Unlistable k = Inr 0"

fun is_dir :: "fsnode \<Rightarrow> bool" where
  "is_dir (File st) = False"
| "is_dir (Dir es) = True"
| "is_dir Unlistable = True"

text \<open>
  \<^verbatim>\<open>os.walk(top)\<close> with its defaults (top-down, \<^verbatim>\<open>onerror=None\<close>): one pair
  (\<^verbatim>\<open>dirnames\<close>, \<^verbatim>\<open>filenames\<close>) for each directory it lists, the directory itself
  first, then its subdirectories in order. A directory it cannot list, and a top that is
  not a directory, yield nothing: the error of \<^verbatim>\<open>scandir\<close> is dropped. An entry stands
  for the path \<^verbatim>\<open>os.path.join(dirpath, f)\<close> that the scanners build from its name.
\<close>

fun walk :: "fsnode \<Rightarrow> (fsnode list \<times> fsnode list) list" where
  "walk (Dir es) =
     (filter is_dir es, filter (\<lambda>e. \<not> is_dir e) es) # concat (map walk (filter is_dir es))"
| "walk (File st) = []"
| "walk Unlistable = []"

subsection \<open>\<^verbatim>\<open>get_size\<close> (core/utils.py)\<close>

text \<open>
  The inner loop, lines 101-104: \<^verbatim>\<open>if os.path.exists(fp): total_size +=
  os.path.getsize(fp)\<close>, the first and the second stat of the entry. Nothing catches an
  error of the second.
\<close>

fun get_size_files :: "nat \<Rightarrow> fsnode list \<Rightarrow> oserror + nat" where
  "get_size_files total_size [] = Inr total_size"
| "get_size_files total_size (fp # filenames) =
     (if path_exists fp 0 then
        (case getsize fp 1 of
           Inl e \<Rightarrow> Inl e
         | Inr n \<Rightarrow> get_size_files (total_size + n) filenames)
      else get_size_files total_size filenames)"

fun get_size_walk :: "nat \<Rightarrow> (fsnode list \<times> fsnode list) list \<Rightarrow> oserror + nat" where
  "get_size_walk total_size [] = Inr total_size"
| "get_size_walk total_size ((dirnames, filenames) # rest) =
     (case get_size_files total_size filenames of
        Inl e \<Rightarrow> Inl e
      | Inr total_size' \<Rightarrow> get_size_walk total_size' rest)"

text \<open>\<^verbatim>\<open>get_size(path)\<close>, lines 86-106: the size returned, or the error that leaves it.\<close>

definition get_size :: "fsnode \<Rightarrow> oserror + nat" where
  "get_size path =
     (if path_isfile path 0 then getsize path 1
      else get_size_walk 0 (walk path))"

subsection \<open>\<^verbatim>\<open>AppDiskAnalyzer._get_directory_size\<close> (analyzers/app_analyzer.py)\<close>

text \<open>
  The inner loop, lines 745-751: one \<^verbatim>\<open>os.path.getsize(fp)\<close> for each file, inside a
  \<^verbatim>\<open>try\<close> whose handler (\<^verbatim>\<open>FileNotFoundError\<close>, \<^verbatim>\<open>PermissionError\<close>, \<^verbatim>\<open>OSError\<close>)
  passes.
\<close>

fun get_directory_size_files :: "nat \<Rightarrow> fsnode list \<Rightarrow> nat" where
  "get_directory_size_files total_size [] = total_size"
| "get_directory_size_files total_size (fp # filenames) =
     (case getsize fp 0 of
        Inl e \<Rightarrow> get_directory_size_files total_size filenames
      | Inr file_size \<Rightarrow> get_directory_size_files (total_size + file_size) filenames)"

fun get_directory_size_walk :: "nat \<Rightarrow> (fsnode list \<times> fsnode list) list \<Rightarrow> nat" where
  "get_directory_size_walk total_size [] = total_size"
| "get_directory_size_walk total_size ((dirnames, filenames) # rest) =
     get_directory_size_walk (get_directory_size_files total_size filenames) rest"

text \<open>
  \<^verbatim>\<open>_get_directory_size(path)\<close>, lines 710-759. Every call that can raise is inside a
  \<^verbatim>\<open>try\<close> with a handler for all of \<^verbatim>\<open>OSError\<close>, so the method returns a number; the
  three stats of a file given as \<^verbatim>\<open>path\<close> are those of \<^verbatim>\<open>exists\<close>, \<^verbatim>\<open>isfile\<close> and
  \<^verbatim>\<open>getsize\<close>.
\<close>

definition get_directory_size :: "fsnode \<Rightarrow> nat" where
  "get_directory_size path =
     (if \<not> path_exists path 0 then 0
      else if path_isfile path 1 then
        (case getsize path 2 of Inl e \<Rightarrow> 0 | Inr file_size \<Rightarrow> file_size)
      else get_directory_size_walk 0 (walk path))"

subsection \<open>What a scan should find\<close>

text \<open>
  The recursive sum over the files that can be reached: a file counts with the size its
  first stat gives, and with 0 when that stat fails; a directory that cannot be listed
  counts 0.
\<close>

fun node_size :: "fsnode \<Rightarrow> nat" where
  "node_size (File st) = (case st 0 of Inl e \<Rightarrow> 0 | Inr n \<Rightarrow> n)"
| "node_size (Dir es) = sum_list (map node_size es)"
| "node_size Unlistable = 0"

text \<open>
  A tree in which no file changes between the two stats that \<^verbatim>\<open>get_size\<close> makes of it,
  and a tree of directories and regular files in which, besides, no stat and no listing
  fails.
\<close>

fun static :: "fsnode \<Rightarrow> bool" where
  "static (File st) = (st 1 = st 0)"
| "static (Dir es) = list_all static es"
| "static Unlistable = True"

fun regular_tree :: "fsnode \<Rightarrow> bool" where
  "regular_tree (File st) = (case st 0 of Inl e \<Rightarrow> False | Inr n \<Rightarrow> st 1 = Inr n)"
| "regular_tree (Dir es) = list_all regular_tree es"
| "regular_tree Unlistable = False"

section \<open>\<^verbatim>\<open>is_unused\<close> (core/utils.py)\<close>

text \<open>
  The three timestamps of \<^verbatim>\<open>os.stat\<close> that the function reads: floats, seconds since
  the epoch, each taken as the number it denotes.
\<close>

record stat_result =
  st_atime :: real
  st_mtime :: real
  st_ctime :: real

text \<open>
  The function compares two naive \<^verbatim>\<open>datetime\<close> values (no \<^verbatim>\<open>tzinfo\<close>): readings of the
  local wall clock, to the microsecond, from 0001-01-01 00:00:00 to 9999-12-31
  23:59:59.999999. Such a value is the number of microseconds from the first of them to
  it, and the comparison of two of them is \<open><\<close> on these numbers.
\<close>

definition datetime_max :: int where
  "datetime_max = 315537897599999999"

definition valid_datetime :: "int \<Rightarrow> bool" where
  "valid_datetime d \<longleftrightarrow> 0 \<le> d \<and> d \<le> datetime_max"

text \<open>
  \<^verbatim>\<open>timedelta(days=n)\<close> for an integer, in microseconds, and \<^verbatim>\<open>datetime - timedelta\<close>:
  integer arithmetic, with \<^verbatim>\<open>OverflowError\<close> for more than 999999999 days and for a
  result that is not a \<^verbatim>\<open>datetime\<close>.
\<close>

datatype time_error = OverflowError

definition timedelta :: "int \<Rightarrow> time_error + int" where
  "timedelta days =
     (if \<bar>days\<bar> \<le> 999999999 then Inr (days * 86400000000) else Inl OverflowError)"

definition datetime_sub :: "int \<Rightarrow> int \<Rightarrow> time_error + int" where
  "datetime_sub d delta =
     (if valid_datetime (d - delta) then Inr (d - delta) else Inl OverflowError)"

text \<open>
  \<^verbatim>\<open>is_unused(path, days_threshold)\<close>, lines 58-83, on the outcome of \<^verbatim>\<open>os.stat(path)\<close>.
  The whole body is in a \<^verbatim>\<open>try\<close> whose handler returns \<^verbatim>\<open>False\<close>. Two things come
  from outside the program and are parameters: \<open>fromtimestamp\<close>, the library's
  \<^verbatim>\<open>datetime.fromtimestamp\<close>, which turns a timestamp into the local wall-clock reading
  by the rules of the machine's time zone, rounded to microseconds, or raises; and
  \<open>now\<close>, the reading that \<^verbatim>\<open>datetime.now()\<close> returns.
\<close>

definition is_unused ::
  "(real \<Rightarrow> 'e + int) \<Rightarrow> oserror + stat_result \<Rightarrow> int \<Rightarrow> int \<Rightarrow> bool" where
  "is_unused fromtimestamp os_stat now days_threshold =
     (case os_stat of
        Inl e \<Rightarrow> False
      | Inr stat_info \<Rightarrow>
          (let last_access_time =
                 max (st_atime stat_info) (max (st_mtime stat_info) (st_ctime stat_info))
           in case fromtimestamp last_access_time of
                Inl e \<Rightarrow> False
              | Inr last_access_date \<Rightarrow>
                  (case timedelta days_threshold of
                     Inl e \<Rightarrow> False
                   | Inr delta \<Rightarrow>
                       (case datetime_sub now delta of
                          Inl e \<Rightarrow> False
                        | Inr threshold_date \<Rightarrow> last_access_date < threshold_date))))"

section \<open>The application analyzer (analyzers/app_analyzer.py)\<close>




text \<open>
  The report dict of one application: its keys \<^verbatim>\<open>name\<close>, \<^verbatim>\<open>bundle_id\<close>, \<^verbatim>\<open>path\<close>,
  \<^verbatim>\<open>sizes\<close> (a dict, in insertion order), \<^verbatim>\<open>total_size\<close> and \<^verbatim>\<open>percentages\<close> (absent
  until it is set). The keys \<^verbatim>\<open>sizes_formatted\<close>, \<^verbatim>\<open>total_size_formatted\<close> and
  \<^verbatim>\<open>locations\<close>, which hold display strings and paths, are left out. A percentage is a
  float, \<^verbatim>\<open>round((size / total_size) * 100, 1)\<close>; its type \<open>'p\<close> and the function that
  computes it from the two integers are parameters.
\<close>

record 'p report =
  r_name :: string
  r_bundle_id :: string
  r_path :: string
  sizes :: "(string \<times> nat) list"
  total_size :: nat
  percentages :: "(string \<times> 'p) list option"






















section \<open>Properties of the orchestrator\<close>

lemma successCount_simps [simp]:
  "successCount [] = 0"
  "successCount (e # evs) = (if cleaned_ok e then 1 else 0) + successCount evs"
  "successCount (xs @ ys) = successCount xs + successCount ys"
  by (simp_all add: successCount_def)

lemma clean_body_events:
  assumes "clean_body c item n s = (r, n', s', evs)" and "CleanItem it dr out \<in> set evs"
  shows "\<exists>st. out = fst (clean_item c it dr st) \<and> dr = False"
  using assms
  by (auto simp: clean_body_def Let_def split: prod.splits sum.splits intro: exI[of _ s])

lemma clean_loop_events:
  assumes "clean_loop c items n s = (r, s', evs)" and "CleanItem it dr out \<in> set evs"
  shows "\<exists>st. out = fst (clean_item c it dr st) \<and> dr = False"
  using assms
proof (induction items arbitrary: n s r s' evs)
  case Nil
  then show ?case by simp
next
  case (Cons item rest)
  obtain r1 n1 s1 evs1 where b: "clean_body c item n s = (r1, n1, s1, evs1)"
    by (cases "clean_body c item n s") auto
  obtain r2 s2 evs2 where l: "clean_loop c rest n1 s1 = (r2, s2, evs2)"
    by (cases "clean_loop c rest n1 s1") auto
  from Cons.prems(1) b l have "set evs \<subseteq> set evs1 \<union> set evs2"
    by (auto split: sum.splits raised.splits)
  with Cons.prems(2) have "CleanItem it dr out \<in> set evs1 \<or> CleanItem it dr out \<in> set evs2" by auto
  then show ?case
    using clean_body_events[OF b] Cons.IH[OF l] by blast
qed

lemma dry_run_loop_events:
  "dry_run_loop c items = (r, evs) \<Longrightarrow> CleanItem it dr out \<notin> set evs"
  by (induction items arbitrary: r evs) (auto split: sum.splits prod.splits)

lemma clean_events:
  assumes "clean c days dry_run s = (r, s', evs)" and "CleanItem it dr out \<in> set evs"
  shows "\<exists>st. out = fst (clean_item c it dr st) \<and> dr = False \<and> \<not> dry_run"
proof -
  show ?thesis
    using assms
    apply (simp add: clean_def split: prod.splits sum.splits raised.splits bool.splits if_splits)
    apply (auto dest: dry_run_loop_events clean_loop_events)
    done
qed

lemma dry_run_loop_logs:
  "map (item_to_str c) items = map Inr strs \<Longrightarrow>
   dry_run_loop c items = (Inr (), map (LogItem ''Would clean'') strs)"
proof (induction items arbitrary: strs)
  case Nil
  then show ?case by simp
next
  case (Cons item rest)
  then obtain str strs' where "strs = str # strs'" by (cases strs) auto
  with Cons show ?case by simp
qed

lemma clean_body_outcome:
  assumes "clean_item c item False s = (r, s1)"
      and "\<And>m. r \<noteq> Inl (BaseExc m)"
      and "\<And>m. item_to_str c item \<noteq> Inl (BaseExc m)"
  shows "\<exists>res evs. clean_body c item n s = (res, n + (if r = Inr True then 1 else 0), s1, evs)
           \<and> (\<forall>m. res \<noteq> Inl (BaseExc m))
           \<and> filter is_clean_call evs = [CleanItem item False r]
           \<and> successCount evs = (if r = Inr True then 1 else 0)"
proof (cases r)
  case (Inl e)
  with assms(1,2) show ?thesis by (simp add: clean_body_def)
next
  case (Inr ok)
  with assms(1,3) show ?thesis
    by (cases "item_to_str c item") (simp_all add: clean_body_def)
qed

lemma clean_loop_outcomes:
  assumes "item_outcomes c items s = (outcomes, s')"
      and "\<And>m. Inl (BaseExc m) \<notin> set outcomes"
      and "\<And>item m. item \<in> set items \<Longrightarrow> item_to_str c item \<noteq> Inl (BaseExc m)"
  shows "\<exists>evs. clean_loop c items n s =
                 (Inr (n + length (filter (\<lambda>r. r = Inr True) outcomes)), s', evs)
           \<and> filter is_clean_call evs = map (\<lambda>(item, r). CleanItem item False r) (zip items outcomes)
           \<and> successCount evs = length (filter (\<lambda>r. r = Inr True) outcomes)"
  using assms
proof (induction items arbitrary: n s outcomes s')
  case Nil
  then show ?case by simp
next
  case (Cons item rest)
  obtain r s1 where call: "clean_item c item False s = (r, s1)"
    by (cases "clean_item c item False s") auto
  obtain rs s2 where tail: "item_outcomes c rest s1 = (rs, s2)"
    by (cases "item_outcomes c rest s1") auto
  from Cons.prems(1) call tail have out: "outcomes = r # rs" and fin: "s' = s2" by simp_all
  have nb: "\<And>m. r \<noteq> Inl (BaseExc m)" using Cons.prems(2) out by auto
  have nbs: "\<And>m. Inl (BaseExc m) \<notin> set rs" using Cons.prems(2) out by auto
  let ?k = "if r = Inr True then 1 else 0 :: nat"
  from clean_body_outcome[OF call nb, of n] Cons.prems(3)
  obtain res evs1 where body: "clean_body c item n s = (res, n + ?k, s1, evs1)"
    and res: "\<forall>m. res \<noteq> Inl (BaseExc m)"
    and calls1: "filter is_clean_call evs1 = [CleanItem item False r]"
    and cnt1: "successCount evs1 = ?k"
    by auto
  from Cons.IH[OF tail nbs, of "n + ?k"] Cons.prems(3)
  obtain evs2 where loop: "clean_loop c rest (n + ?k) s1 =
        (Inr (n + ?k + length (filter (\<lambda>r. r = Inr True) rs)), s2, evs2)"
    and calls2: "filter is_clean_call evs2 = map (\<lambda>(item, r). CleanItem item False r) (zip rest rs)"
    and cnt2: "successCount evs2 = length (filter (\<lambda>r. r = Inr True) rs)"
    by auto
  have "clean_loop c (item # rest) n s =
        (Inr (n + ?k + length (filter (\<lambda>r. r = Inr True) rs)), s2, evs1 @ evs2)"
    using body res loop by (cases res) (auto split: raised.splits)
  then show ?case
    using calls1 calls2 cnt1 cnt2 out fin by (auto simp: successCount_def)
qed

text \<open>
  Claim C1. A real run (\<^verbatim>\<open>dry_run=False\<close>) whose prerequisite check passes and whose
  discovery returns a list calls \<^verbatim>\<open>clean_item(item, dry_run=False)\<close> on every
  discovered item, once and in order, each on the state the call before left, whether
  that call returned \<^verbatim>\<open>True\<close>, returned \<^verbatim>\<open>False\<close> or raised an exception. It returns
  \<open>successCount > 0 \<or> totalItems = 0\<close>, where \<open>successCount\<close> is the number of these
  calls that returned \<^verbatim>\<open>True\<close> and \<open>totalItems\<close> the number of discovered items, and it
  leaves the state the last call left. So two calls that succeed and one that raises give
  success, and a non-empty list on which every call fails or raises gives failure. The
  exceptions are instances of \<^verbatim>\<open>Exception\<close>.
\<close>

theorem clean_real_run_success:
  assumes "check_prerequisites c s = (Inr True, s1)"
      and "find_cleanable_items c days s1 = (Inr items, s2)"
      and "item_outcomes c items s2 = (outcomes, s3)"
      and "\<And>m. Inl (BaseExc m) \<notin> set outcomes"
      and "\<And>item m. item \<in> set items \<Longrightarrow> item_to_str c item \<noteq> Inl (BaseExc m)"
  shows "\<exists>evs. clean c days False s =
                 (Inr (0 < length (filter (\<lambda>r. r = Inr True) outcomes) \<or> length items = 0),
                  s3, evs)
           \<and> filter is_clean_call evs =
                 map (\<lambda>(item, r). CleanItem item False r) (zip items outcomes)
           \<and> successCount evs = length (filter (\<lambda>r. r = Inr True) outcomes)"
proof (cases "items = []")
  case True
  then show ?thesis using assms(1,2,3) by (auto simp: clean_def successCount_def)
next
  case False
  from clean_loop_outcomes[OF assms(3,4), of 0] assms(5)
  obtain evs where "clean_loop c items 0 s2 =
        (Inr (0 + length (filter (\<lambda>r. r = Inr True) outcomes)), s3, evs)"
    and "filter is_clean_call evs = map (\<lambda>(item, r). CleanItem item False r) (zip items outcomes)"
    and "successCount evs = length (filter (\<lambda>r. r = Inr True) outcomes)"
    by auto
  then show ?thesis using assms(1,2) False by (simp add: clean_def successCount_def)
qed

text \<open>
  Three items of which the second raises give success; two items of which one fails and
  one raises give failure; two items of which the first fails and the second succeeds
  give success.
\<close>

theorem clean_real_run_success_witness:
  "clean (StubCleaner (Inr True) (Inr [''a'', ''b'', ''c''])
            (\<lambda>i. if i = ''b'' then Inl (Exc ''boom'') else Inr True)) 30 False [] =
     (Inr True, [''a'', ''c''],
      [CheckPrerequisites, FindCleanableItems 30,
       CleanItem ''a'' False (Inr True), LogItem ''Cleaned'' ''a'',
       CleanItem ''b'' False (Inl (Exc ''boom'')),
       CleanItem ''c'' False (Inr True), LogItem ''Cleaned'' ''c''])
   \<and> fst (clean (StubCleaner (Inr True) (Inr [''a'', ''b''])
            (\<lambda>i. if i = ''b'' then Inl (Exc ''boom'') else Inr False)) 30 False []) = Inr False
   \<and> fst (clean (StubCleaner (Inr True) (Inr [''a'', ''b''])
            (\<lambda>i. if i = ''a'' then Inr False else Inr True)) 30 False []) = Inr True"
proof -
  let ?c = "StubCleaner (Inr True) (Inr [''a'', ''b'', ''c''])
              (\<lambda>i. if i = ''b'' then Inl (Exc ''boom'') else Inr True)"
  let ?d = "StubCleaner (Inr True) (Inr [''a'', ''b''])
              (\<lambda>i. if i = ''b'' then Inl (Exc ''boom'') else Inr False)"
  let ?e = "StubCleaner (Inr True) (Inr [''a'', ''b''])
              (\<lambda>i. if i = ''a'' then Inr False else Inr True)"
  have c1: "check_prerequisites ?c [] = (Inr True, [])"
    and c2: "find_cleanable_items ?c 30 [] = (Inr [''a'', ''b'', ''c''], [])"
    and c3: "item_outcomes ?c [''a'', ''b'', ''c''] [] =
               ([Inr True, Inl (Exc ''boom''), Inr True], [''a'', ''c''])"
    and c4: "\<And>m. Inl (BaseExc m) \<notin> set [Inr True, Inl (Exc ''boom''), Inr True]"
    and c5: "\<And>item m. item \<in> set [''a'', ''b'', ''c''] \<Longrightarrow> item_to_str ?c item \<noteq> Inl (BaseExc m)"
    by (simp_all add: StubCleaner_def)
  have d1: "check_prerequisites ?d [] = (Inr True, [])"
    and d2: "find_cleanable_items ?d 30 [] = (Inr [''a'', ''b''], [])"
    and d3: "item_outcomes ?d [''a'', ''b''] [] = ([Inr False, Inl (Exc ''boom'')], [])"
    and d4: "\<And>m. Inl (BaseExc m) \<notin> set [Inr False, Inl (Exc ''boom'')]"
    and d5: "\<And>item m. item \<in> set [''a'', ''b''] \<Longrightarrow> item_to_str ?d item \<noteq> Inl (BaseExc m)"
    by (simp_all add: StubCleaner_def)
  have e1: "check_prerequisites ?e [] = (Inr True, [])"
    and e2: "find_cleanable_items ?e 30 [] = (Inr [''a'', ''b''], [])"
    and e3: "item_outcomes ?e [''a'', ''b''] [] = ([Inr False, Inr True], [''b''])"
    and e4: "\<And>m. Inl (BaseExc m) \<notin> set [Inr False, Inr True]"
    and e5: "\<And>item m. item \<in> set [''a'', ''b''] \<Longrightarrow> item_to_str ?e item \<noteq> Inl (BaseExc m)"
    by (simp_all add: StubCleaner_def)
  have trace: "snd (snd (clean ?c 30 False [])) =
      [CheckPrerequisites, FindCleanableItems 30,
       CleanItem ''a'' False (Inr True), LogItem ''Cleaned'' ''a'',
       CleanItem ''b'' False (Inl (Exc ''boom'')),
       CleanItem ''c'' False (Inr True), LogItem ''Cleaned'' ''c'']"
    by (simp add: StubCleaner_def clean_def clean_body_def)
  from clean_real_run_success [OF c1 c2 c3 c4 c5] clean_real_run_success [OF d1 d2 d3 d4 d5]
       clean_real_run_success [OF e1 e2 e3 e4 e5] trace
  show ?thesis by auto
qed

text \<open>
  Claim C2, as amended. A dry run whose prerequisite check passes and whose discovery
  returns a non-empty list makes no \<^verbatim>\<open>clean_item\<close> call at all: when the formatter
  returns a string for each item, the run logs each discovered item as "Would clean", in
  the order of discovery, and returns success, and the provider's state is the one
  discovery left, so nothing is deleted.
\<close>

theorem clean_dry_run_reports_only:
  assumes "check_prerequisites c s = (Inr True, s1)"
      and "find_cleanable_items c days s1 = (Inr items, s2)"
      and "items \<noteq> []"
      and "map (item_to_str c) items = map Inr strs"
  shows "clean c days True s =
           (Inr True, s2,
            [CheckPrerequisites, FindCleanableItems days] @ map (LogItem ''Would clean'') strs)"
  using assms by (simp add: clean_def dry_run_loop_logs)

theorem clean_dry_run_reports_only_witness:
  "clean (StubCleaner (Inr True) (Inr [''a'', ''b'']) (\<lambda>i. Inr True)) 30 True [] =
     (Inr True, [], [CheckPrerequisites, FindCleanableItems 30,
                     LogItem ''Would clean'' ''a'', LogItem ''Would clean'' ''b''])"
proof -
  let ?c = "StubCleaner (Inr True) (Inr [''a'', ''b'']) (\<lambda>i. Inr True)"
  have h1: "check_prerequisites ?c [] = (Inr True, [])"
    and h2: "find_cleanable_items ?c 30 [] = (Inr [''a'', ''b''], [])"
    and h3: "[''a'', ''b''] \<noteq> []"
    and h4: "map (item_to_str ?c) [''a'', ''b''] = map Inr [''a'', ''b'']"
    by (simp_all add: StubCleaner_def)
  from clean_dry_run_reports_only [OF h1 h2 h3 h4] show ?thesis by simp
qed

text \<open>
  The claim as it stands fails: in a dry run over one item whose \<^verbatim>\<open>clean_item\<close> would
  return \<^verbatim>\<open>True\<close>, the events of the run are the two calls and one log line, and no
  \<^verbatim>\<open>clean_item(item, dry_run=True)\<close> call is among them.
\<close>

theorem clean_dry_run_counterexample:
  "clean_item (StubCleaner (Inr True) (Inr [''a'']) (\<lambda>i. Inr True)) ''a'' True [] = (Inr True, [])
   \<and> snd (snd (clean (StubCleaner (Inr True) (Inr [''a'']) (\<lambda>i. Inr True)) 30 True [])) =
        [CheckPrerequisites, FindCleanableItems 30, LogItem ''Would clean'' ''a'']
   \<and> CleanItem ''a'' True (Inr True)
        \<notin> set (snd (snd (clean (StubCleaner (Inr True) (Inr [''a'']) (\<lambda>i. Inr True)) 30 True [])))"
  by (simp add: StubCleaner_def clean_def)

text \<open>
  Claim C4. For every provider, state, threshold and mode: when
  \<^verbatim>\<open>check_prerequisites\<close> returns \<^verbatim>\<open>False\<close> or raises an exception (an instance of
  \<^verbatim>\<open>Exception\<close>), \<^verbatim>\<open>clean\<close> returns \<^verbatim>\<open>False\<close>, and the prerequisite check is the only
  call the run makes: \<^verbatim>\<open>find_cleanable_items\<close> is not called.
\<close>

theorem clean_prerequisites_fail_fast:
  assumes "check_prerequisites c s = (r, s1)"
      and "r = Inr False \<or> (\<exists>m. r = Inl (Exc m))"
  shows "clean c days dry_run s = (Inr False, s1, [CheckPrerequisites])"
  using assms by (auto simp: clean_def)

theorem clean_prerequisites_fail_fast_witness:
  "clean (StubCleaner (Inr False) (Inr [''a'']) (\<lambda>i. Inr True)) 30 False [] =
     (Inr False, [], [CheckPrerequisites])
   \<and> clean (StubCleaner (Inl (Exc ''no kubectl'')) (Inr [''a'']) (\<lambda>i. Inr True)) 30 False [] =
     (Inr False, [], [CheckPrerequisites])"
proof -
  let ?c = "StubCleaner (Inr False) (Inr [''a'']) (\<lambda>i. Inr True)"
  let ?d = "StubCleaner (Inl (Exc ''no kubectl'')) (Inr [''a'']) (\<lambda>i. Inr True)"
  have c1: "check_prerequisites ?c [] = (Inr False, [])"
    and c2: "Inr False = (Inr False :: bool result) \<or> (\<exists>m. (Inr False :: bool result) = Inl (Exc m))"
    by (simp_all add: StubCleaner_def)
  have d1: "check_prerequisites ?d [] = (Inl (Exc ''no kubectl''), [])"
    and d2: "Inl (Exc ''no kubectl'') = (Inr False :: bool result)
             \<or> (\<exists>m. (Inl (Exc ''no kubectl'') :: bool result) = Inl (Exc m))"
    by (simp_all add: StubCleaner_def)
  from clean_prerequisites_fail_fast [OF c1 c2, of 30 False]
       clean_prerequisites_fail_fast [OF d1 d2, of 30 False]
  show ?thesis by simp
qed

text \<open>
  Claim C5. After a prerequisite check that passes: when \<^verbatim>\<open>find_cleanable_items\<close>
  raises an exception (an instance of \<^verbatim>\<open>Exception\<close>), \<^verbatim>\<open>clean\<close> returns \<^verbatim>\<open>False\<close>
  instead of raising, and the run has made the two calls and has processed no item; when
  discovery returns the empty list, \<^verbatim>\<open>clean\<close> returns \<^verbatim>\<open>True\<close>.
\<close>

theorem clean_discovery_error:
  assumes "check_prerequisites c s = (Inr True, s1)"
  shows "(find_cleanable_items c days s1 = (Inl (Exc m), s2) \<longrightarrow>
            clean c days dry_run s = (Inr False, s2, [CheckPrerequisites, FindCleanableItems days]))
       \<and> (find_cleanable_items c days s1 = (Inr [], s2) \<longrightarrow>
            clean c days dry_run s = (Inr True, s2, [CheckPrerequisites, FindCleanableItems days]))"
  using assms by (simp add: clean_def)

theorem clean_discovery_error_witness:
  "clean (StubCleaner (Inr True) (Inl (Exc ''parse error'')) (\<lambda>i. Inr True)) 30 False [] =
      (Inr False, [], [CheckPrerequisites, FindCleanableItems 30])
   \<and> clean (StubCleaner (Inr True) (Inr []) (\<lambda>i. Inr True)) 30 False [] =
      (Inr True, [], [CheckPrerequisites, FindCleanableItems 30])"
proof -
  let ?c = "StubCleaner (Inr True) (Inl (Exc ''parse error'')) (\<lambda>i. Inr True)"
  let ?d = "StubCleaner (Inr True) (Inr []) (\<lambda>i. Inr True)"
  have c1: "check_prerequisites ?c [] = (Inr True, [])"
    and c2: "find_cleanable_items ?c 30 [] = (Inl (Exc ''parse error''), [])"
    by (simp_all add: StubCleaner_def)
  have d1: "check_prerequisites ?d [] = (Inr True, [])"
    and d2: "find_cleanable_items ?d 30 [] = (Inr [], [])"
    by (simp_all add: StubCleaner_def)
  from clean_discovery_error [OF c1, of 30 "''parse error''" "[]" False] c2
       clean_discovery_error [OF d1, of 30 "''x''" "[]" False] d2
  show ?thesis by simp
qed

section \<open>Properties of the Kubernetes provider\<close>

text \<open>
  Claim C3. An item whose namespace is one of the protected namespaces, or whose name
  starts with one of the protected prefixes, is refused by \<^verbatim>\<open>clean_item\<close> whatever
  \<^verbatim>\<open>dry_run\<close> is: it returns \<^verbatim>\<open>False\<close>, leaves the cluster as it was and issues no
  command. So no run of the orchestrator with this provider, whatever discovery returned,
  has a \<^verbatim>\<open>clean_item\<close> call on such an item that returns \<^verbatim>\<open>True\<close>.
\<close>

theorem k8s_protected_never_cleaned:
  assumes "namespace item \<in> protected_namespaces
           \<or> (\<exists>p \<in> protected_prefixes. prefix p (name item))"
  shows "k8s_clean_item run_kubectl item dry_run w = (False, w, [])
       \<and> CleanItem item dr (Inr True)
           \<notin> set (snd (snd (clean (KubernetesCleaner prereq discover fmt run_kubectl)
                                days_threshold mode s)))"
proof
  show refused: "k8s_clean_item run_kubectl item dry_run w = (False, w, [])" for dry_run w
    using assms by (auto simp: k8s_clean_item_def)
  show "CleanItem item dr (Inr True)
           \<notin> set (snd (snd (clean (KubernetesCleaner prereq discover fmt run_kubectl)
                                days_threshold mode s)))"
  proof
    let ?c = "KubernetesCleaner prereq discover fmt run_kubectl"
    assume "CleanItem item dr (Inr True) \<in> set (snd (snd (clean ?c days_threshold mode s)))"
    moreover obtain r s' evs where "clean ?c days_threshold mode s = (r, s', evs)"
      by (cases "clean ?c days_threshold mode s") auto
    ultimately obtain st where "Inr True = fst (clean_item ?c item dr st)"
      using clean_events[of ?c days_threshold mode s r s' evs item dr "Inr True"] by auto
    then show False
      by (cases st) (simp add: KubernetesCleaner_def refused)
  qed
qed

theorem k8s_protected_never_cleaned_witness:
  "k8s_clean_item kubectl_ok
      \<lparr>item_type = ''pod'', namespace = ''kube-system'', name = ''web-1''\<rparr> False [] = (False, [], [])
   \<and> k8s_clean_item kubectl_ok
      \<lparr>item_type = ''secret'', namespace = ''apps'', name = ''default-token-x7''\<rparr> False [] =
        (False, [], [])
   \<and> k8s_clean_item kubectl_ok
      \<lparr>item_type = ''pod'', namespace = ''apps'', name = ''web-1''\<rparr> False [] =
        (True, [''kubectl delete pod web-1 -n apps --grace-period=30''],
               [''kubectl delete pod web-1 -n apps --grace-period=30''])"
proof -
  let ?a = "\<lparr>item_type = ''pod'', namespace = ''kube-system'', name = ''web-1''\<rparr>"
  let ?b = "\<lparr>item_type = ''secret'', namespace = ''apps'', name = ''default-token-x7''\<rparr>"
  have h1: "namespace ?a \<in> protected_namespaces
            \<or> (\<exists>p \<in> protected_prefixes. prefix p (name ?a))"
    by (simp add: protected_namespaces_def)
  have h2: "namespace ?b \<in> protected_namespaces
            \<or> (\<exists>p \<in> protected_prefixes. prefix p (name ?b))"
    by (simp add: protected_prefixes_def)
  have h3: "k8s_clean_item kubectl_ok
      \<lparr>item_type = ''pod'', namespace = ''apps'', name = ''web-1''\<rparr> False [] =
        (True, [''kubectl delete pod web-1 -n apps --grace-period=30''],
               [''kubectl delete pod web-1 -n apps --grace-period=30''])"
    by (simp add: k8s_clean_item_def protected_namespaces_def protected_prefixes_def
          delete_command_def kubectl_ok_def)
  from k8s_protected_never_cleaned [OF h1, of kubectl_ok False "[]"]
       k8s_protected_never_cleaned [OF h2, of kubectl_ok False "[]"] h3
  show ?thesis by simp
qed

text \<open>
  Claim C10. For an item whose namespace is not protected and whose name has no protected
  prefix, \<^verbatim>\<open>clean_item\<close> with \<^verbatim>\<open>dry_run=True\<close> returns \<^verbatim>\<open>True\<close> whatever the type
  of the item is, and with \<^verbatim>\<open>dry_run=False\<close> it returns \<^verbatim>\<open>False\<close> and issues no
  command when the type is none of pod, replicaset, configmap and secret.
\<close>

theorem k8s_dry_run_ignores_type:
  assumes "namespace item \<notin> protected_namespaces"
      and "\<not> (\<exists>p \<in> protected_prefixes. prefix p (name item))"
  shows "k8s_clean_item run_kubectl item True w = (True, w, [])
       \<and> (item_type item \<notin> {''pod'', ''replicaset'', ''configmap'', ''secret''} \<longrightarrow>
            k8s_clean_item run_kubectl item False w = (False, w, []))"
  using assms by (simp add: k8s_clean_item_def delete_command_def)

theorem k8s_dry_run_ignores_type_witness:
  "k8s_clean_item kubectl_ok
      \<lparr>item_type = ''deployment'', namespace = ''apps'', name = ''web''\<rparr> True [] = (True, [], [])
   \<and> k8s_clean_item kubectl_ok
      \<lparr>item_type = ''deployment'', namespace = ''apps'', name = ''web''\<rparr> False [] = (False, [], [])"
proof -
  let ?it = "\<lparr>item_type = ''deployment'', namespace = ''apps'', name = ''web''\<rparr>"
  have h1: "namespace ?it \<notin> protected_namespaces" by (simp add: protected_namespaces_def)
  have h2: "\<not> (\<exists>p \<in> protected_prefixes. prefix p (name ?it))"
    by (simp add: protected_prefixes_def)
  have h3: "item_type ?it \<notin> {''pod'', ''replicaset'', ''configmap'', ''secret''}" by simp
  from k8s_dry_run_ignores_type [OF h1 h2, of kubectl_ok "[]"] h3 show ?thesis by simp
qed

section \<open>Properties of the size scanners\<close>

lemma sum_list_split_filter:
  "sum_list (map f (filter P xs)) + sum_list (map f (filter (\<lambda>x. \<not> P x) xs)) =
   sum_list (map (f :: 'a \<Rightarrow> nat) xs)"
  by (induction xs) auto

subsection \<open>\<^verbatim>\<open>get_size\<close> on a tree that does not change\<close>

lemma get_size_walk_append:
  "get_size_walk acc (xs @ ys) =
     (case get_size_walk acc xs of Inl e \<Rightarrow> Inl e | Inr t \<Rightarrow> get_size_walk t ys)"
  by (induction xs arbitrary: acc) (auto split: sum.splits)

lemma get_size_files_static:
  "list_all static fs \<Longrightarrow> list_all (\<lambda>e. \<not> is_dir e) fs \<Longrightarrow>
   get_size_files acc fs = Inr (acc + sum_list (map node_size fs))"
proof (induction fs arbitrary: acc)
  case Nil
  show ?case by simp
next
  case (Cons f fs)
  then obtain st where f: "f = File st" by (cases f) auto
  with Cons.prems have same: "st 1 = st 0" by simp
  show ?case
  proof (cases "st 0")
    case (Inl e)
    with Cons f show ?thesis by simp
  next
    case (Inr n)
    with Cons f same show ?thesis by simp
  qed
qed

lemma get_size_walk_dirs:
  assumes "\<And>d acc. d \<in> set ds \<Longrightarrow> get_size_walk acc (walk d) = Inr (acc + node_size d)"
  shows "get_size_walk acc (concat (map walk ds)) = Inr (acc + sum_list (map node_size ds))"
  using assms
proof (induction ds arbitrary: acc)
  case Nil
  show ?case by simp
next
  case (Cons d ds)
  have "get_size_walk acc (walk d) = Inr (acc + node_size d)" using Cons.prems by simp
  moreover have "get_size_walk (acc + node_size d) (concat (map walk ds)) =
      Inr (acc + node_size d + sum_list (map node_size ds))"
    using Cons.IH Cons.prems by simp
  ultimately show ?case by (simp add: get_size_walk_append)
qed

lemma get_size_walk_static:
  "static t \<Longrightarrow> is_dir t \<Longrightarrow> get_size_walk acc (walk t) = Inr (acc + node_size t)"
proof (induction t arbitrary: acc rule: walk.induct)
  case (1 es)
  have st: "list_all static es" using "1.prems" by simp
  have files: "get_size_files acc (filter (\<lambda>e. \<not> is_dir e) es) =
      Inr (acc + sum_list (map node_size (filter (\<lambda>e. \<not> is_dir e) es)))"
    using st by (intro get_size_files_static) (auto simp: list_all_iff)
  have dirs: "get_size_walk acc' (concat (map walk (filter is_dir es))) =
      Inr (acc' + sum_list (map node_size (filter is_dir es)))" for acc'
  proof (rule get_size_walk_dirs)
    fix d a assume "d \<in> set (filter is_dir es)"
    then show "get_size_walk a (walk d) = Inr (a + node_size d)"
      using "1.IH"[of d a] st by (auto simp: list_all_iff)
  qed
  show ?case
    using files dirs sum_list_split_filter[of node_size is_dir es] by simp
next
  case (2 st)
  then show ?case by simp
next
  case 3
  then show ?case by simp
qed

lemma get_size_static: "static t \<Longrightarrow> get_size t = Inr (node_size t)"
proof (cases t)
  case (File st)
  assume "static t"
  with File show ?thesis by (cases "st 0") (simp_all add: get_size_def)
next
  case (Dir es)
  assume "static t"
  with Dir get_size_walk_static[of t 0] show ?thesis by (simp add: get_size_def)
next
  case Unlistable
  then show ?thesis by (simp add: get_size_def)
qed

lemma regular_tree_static: "regular_tree t \<Longrightarrow> static t"
  by (induction t rule: regular_tree.induct) (auto simp: list_all_iff split: sum.splits)

subsection \<open>\<^verbatim>\<open>_get_directory_size\<close> on any tree\<close>

lemma get_directory_size_walk_append:
  "get_directory_size_walk acc (xs @ ys) =
     get_directory_size_walk (get_directory_size_walk acc xs) ys"
  by (induction xs arbitrary: acc) auto

lemma get_directory_size_files_sum:
  "list_all (\<lambda>e. \<not> is_dir e) fs \<Longrightarrow>
   get_directory_size_files acc fs = acc + sum_list (map node_size fs)"
proof (induction fs arbitrary: acc)
  case Nil
  show ?case by simp
next
  case (Cons f fs)
  then obtain st where f: "f = File st" by (cases f) auto
  with Cons show ?case by (cases "st 0") simp_all
qed

lemma get_directory_size_walk_dirs:
  assumes "\<And>d acc. d \<in> set ds \<Longrightarrow> get_directory_size_walk acc (walk d) = acc + node_size d"
  shows "get_directory_size_walk acc (concat (map walk ds)) = acc + sum_list (map node_size ds)"
  using assms
  by (induction ds arbitrary: acc) (simp_all add: get_directory_size_walk_append)

lemma get_directory_size_walk_sum:
  "is_dir t \<Longrightarrow> get_directory_size_walk acc (walk t) = acc + node_size t"
proof (induction t arbitrary: acc rule: walk.induct)
  case (1 es)
  have files: "get_directory_size_files acc (filter (\<lambda>e. \<not> is_dir e) es) =
      acc + sum_list (map node_size (filter (\<lambda>e. \<not> is_dir e) es))"
    by (intro get_directory_size_files_sum) (auto simp: list_all_iff)
  have dirs: "get_directory_size_walk acc' (concat (map walk (filter is_dir es))) =
      acc' + sum_list (map node_size (filter is_dir es))" for acc'
  proof (rule get_directory_size_walk_dirs)
    fix d a assume "d \<in> set (filter is_dir es)"
    then show "get_directory_size_walk a (walk d) = a + node_size d"
      using "1.IH"[of d a] by auto
  qed
  show ?case
    using files dirs sum_list_split_filter[of node_size is_dir es] by simp
next
  case (2 st)
  then show ?case by simp
next
  case 3
  then show ?case by simp
qed

text \<open>
  The analyzer's scanner does what the specification says of the size scanner, on every
  tree: a directory gives the recursive sum, in which a file whose stat fails and a
  directory that cannot be listed count 0; a file gives its size, or 0 when one of its
  stats fails.
\<close>

lemma get_directory_size_swallows_errors:
  "get_directory_size (Dir es) = sum_list (map node_size es)"
  "get_directory_size Unlistable = 0"
  "get_directory_size (File st) =
     (case (st 0, st 1, st 2) of (Inr a, Inr b, Inr n) \<Rightarrow> n | _ \<Rightarrow> 0)"
  using get_directory_size_walk_sum[of "Dir es" 0]
  by (simp_all add: get_directory_size_def split: sum.splits)

text \<open>
  Claim C7 (a defect of \<^verbatim>\<open>get_size\<close>). The size scanner is to return 0 for a file
  whose stat fails, by a permission error or a race, and is never to raise. The
  analyzer's \<^verbatim>\<open>_get_directory_size\<close> does so; \<^verbatim>\<open>get_size\<close> of core/utils.py has no
  handler, and raises when a file is removed between its check and its
  \<^verbatim>\<open>os.path.getsize\<close>: given as the path (between \<^verbatim>\<open>isfile\<close> and \<^verbatim>\<open>getsize\<close>), or
  found in the directory scanned (between \<^verbatim>\<open>exists\<close> and \<^verbatim>\<open>getsize\<close>). On the same
  inputs \<^verbatim>\<open>_get_directory_size\<close> returns.
\<close>

theorem get_size_raises_on_race:
  "get_size (File (\<lambda>k. if k = 0 then Inr 5 else Inl FileNotFoundError)) = Inl FileNotFoundError
   \<and> get_size (Dir [File (\<lambda>k. Inr 3),
                    File (\<lambda>k. if k = 0 then Inr 5 else Inl FileNotFoundError)]) =
       Inl FileNotFoundError
   \<and> get_directory_size (File (\<lambda>k. if k = 0 then Inr 5 else Inl FileNotFoundError)) = 0
   \<and> get_directory_size (Dir [File (\<lambda>k. Inr 3),
                    File (\<lambda>k. if k = 0 then Inr 5 else Inl FileNotFoundError)]) = 8"
  by (simp add: get_size_def get_directory_size_def)

text \<open>
  Claim C9. For a directory below which there are only directories and regular files,
  and no stat or listing fails, \<^verbatim>\<open>get_size\<close> returns a size for each immediate child
  and for the directory, and the size of the directory is the sum of the sizes of its
  children. Sizes are natural numbers, so none is negative.
\<close>

theorem get_size_additive:
  assumes "regular_tree (Dir children)"
  shows "\<exists>child_sizes. map get_size children = map Inr child_sizes
           \<and> get_size (Dir children) = Inr (sum_list child_sizes)
           \<and> 0 \<le> sum_list child_sizes"
proof -
  have "map get_size children = map Inr (map node_size children)"
    using assms by (auto simp: list_all_iff get_size_static regular_tree_static)
  moreover have "get_size (Dir children) = Inr (sum_list (map node_size children))"
    using get_size_static[OF regular_tree_static[OF assms]] by simp
  ultimately show ?thesis by blast
qed

theorem get_size_additive_witness:
  "regular_tree (Dir [File (\<lambda>k. Inr 3), Dir [File (\<lambda>k. Inr 4), File (\<lambda>k. Inr 1)]])
   \<and> map get_size [File (\<lambda>k. Inr 3), Dir [File (\<lambda>k. Inr 4), File (\<lambda>k. Inr 1)]] = [Inr 3, Inr 5]
   \<and> get_size (Dir [File (\<lambda>k. Inr 3), Dir [File (\<lambda>k. Inr 4), File (\<lambda>k. Inr 1)]]) = Inr 8"
proof -
  have h: "regular_tree (Dir [File (\<lambda>k. Inr 3), Dir [File (\<lambda>k. Inr 4), File (\<lambda>k. Inr 1)]])"
    by simp
  from get_size_additive [OF h] h show ?thesis
    by (simp add: get_size_def)
qed

section \<open>Properties of the age classifier\<close>

text \<open>
  Claim C8, as amended. For every threshold of 0 days or more, \<^verbatim>\<open>is_unused\<close> returns
  \<^verbatim>\<open>True\<close> exactly when the stat succeeds, \<^verbatim>\<open>datetime.fromtimestamp\<close> turns the
  maximum of the access, modification and change times into a local wall-clock reading,
  and that reading is earlier than the reading of \<^verbatim>\<open>datetime.now()\<close> minus the threshold
  in days; when the stat or the conversion fails it returns \<^verbatim>\<open>False\<close>. The comparison
  is between wall-clock readings, not between the timestamps. This holds also for
  thresholds so large that the library raises: the handler then returns \<^verbatim>\<open>False\<close>, and
  no reading is that early.
\<close>

theorem is_unused_local_datetime:
  assumes "0 \<le> days_threshold"
      and "valid_datetime now"
      and "\<And>t d. fromtimestamp t = Inr d \<Longrightarrow> valid_datetime d"
  shows "is_unused fromtimestamp os_stat now days_threshold \<longleftrightarrow>
           (\<exists>stat_info last_access_date.
              os_stat = Inr stat_info
              \<and> fromtimestamp
                    (max (st_atime stat_info) (max (st_mtime stat_info) (st_ctime stat_info)))
                  = Inr last_access_date
              \<and> last_access_date < now - days_threshold * 86400000000)"
proof (cases os_stat)
  case (Inl e)
  then show ?thesis by (simp add: is_unused_def)
next
  case (Inr stat_info)
  let ?t = "max (st_atime stat_info) (max (st_mtime stat_info) (st_ctime stat_info))"
  show ?thesis
  proof (cases "fromtimestamp ?t")
    case (Inl e)
    with Inr show ?thesis by (simp add: is_unused_def)
  next
    case conv: (Inr d)
    have d0: "0 \<le> d" using assms(3)[OF conv] by (simp add: valid_datetime_def)
    have n1: "now \<le> datetime_max" using assms(2) by (simp add: valid_datetime_def)
    have big: "now - days_threshold * 86400000000 < 0" if "\<not> \<bar>days_threshold\<bar> \<le> 999999999"
    proof -
      from that assms(1) have "1000000000 \<le> days_threshold" by simp
      then have "86400000000000000000 \<le> days_threshold * 86400000000" by simp
      with n1 show ?thesis by (simp add: datetime_max_def)
    qed
    have up: "now - days_threshold * 86400000000 \<le> datetime_max"
      using assms(1) n1 by (simp add: add_increasing2)
    show ?thesis
      using Inr conv d0 big up
      by (auto simp: is_unused_def Let_def timedelta_def datetime_sub_def valid_datetime_def)
  qed
qed

text \<open>
  In a zone without offset: a file last touched at 1600000000 is unused at 1700000000
  with a threshold of 30 days, one touched at 1699000000 is not, and one whose stat
  fails is not.
\<close>

theorem is_unused_local_datetime_witness:
  "is_unused (\<lambda>t. if t = 1600000000 then Inr 63735596800000000
                   else if t = 1699000000 then Inr 63834596800000000
                   else Inl OverflowError)
      (Inr \<lparr>st_atime = 1600000000, st_mtime = 1500000000, st_ctime = 1550000000\<rparr>)
      63835596800000000 30
   \<and> \<not> is_unused (\<lambda>t. if t = 1600000000 then Inr 63735596800000000
                   else if t = 1699000000 then Inr 63834596800000000
                   else Inl OverflowError)
      (Inr \<lparr>st_atime = 1600000000, st_mtime = 1699000000, st_ctime = 1550000000\<rparr>)
      63835596800000000 30
   \<and> \<not> is_unused (\<lambda>t. if t = 1600000000 then Inr 63735596800000000
                   else if t = 1699000000 then Inr 63834596800000000
                   else Inl OverflowError)
      (Inl PermissionError) 63835596800000000 30"
proof -
  let ?f = "\<lambda>t::real. if t = 1600000000 then Inr (63735596800000000::int)
                   else if t = 1699000000 then Inr 63834596800000000
                   else Inl OverflowError"
  have d: "(0::int) \<le> 30"
    and n: "valid_datetime 63835596800000000"
    by (simp_all add: valid_datetime_def datetime_max_def)
  have f: "\<And>t d. ?f t = Inr d \<Longrightarrow> valid_datetime d"
    by (auto simp: valid_datetime_def datetime_max_def split: if_splits)
  from is_unused_local_datetime [of 30 63835596800000000 ?f, OF d n f]
  show ?thesis by simp
qed

text \<open>
  The claim as it stands fails: it compares the timestamps, the code compares wall-clock
  readings. In the zone of New York the clock went forward one hour on 2023-03-12.
  A file last touched at 1677409800 (2023-02-26 06:10:00 there) is looked at when the
  time is 1680000000 (2023-03-28 06:40:00 there) with a threshold of 30 days: the
  timestamp is 30 minutes younger than the time minus 30 days, and \<^verbatim>\<open>is_unused\<close>
  returns \<^verbatim>\<open>True\<close>, since 06:10 on 26 February is before 06:40 on 26 February.
\<close>

theorem is_unused_dst_counterexample:
  "is_unused (\<lambda>t. if t = 1677409800 then Inr 63812988600000000 else Inl OverflowError)
      (Inr \<lparr>st_atime = 1677409800, st_mtime = 1677409800, st_ctime = 1677409800\<rparr>)
      63815582400000000 30
   \<and> \<not> ((1677409800::real) < 1680000000 - 30 * 86400)"
  by (simp add: is_unused_def timedelta_def datetime_sub_def valid_datetime_def datetime_max_def)

section \<open>Properties of the application analyzer\<close>


























end
